theory Spec2Isabelle
  imports Main
begin

section \<open>Cancellable promises: the shared vocabulary\<close>

text \<open>
  The repository holds four drafts of one class, \<open>AbortablePromise\<close>, each followed by the same
  demonstration (\<open>Ble.sendRequest\<close> and \<open>app\<close>):
  \<^item> the hook draft (\<open>src/index.ts\<close>, lines 1 to 117): the executor registers an \<open>onCancel\<close>
    callback and \<open>abort\<close> calls it;
  \<^item> the controller draft (\<open>src/index.ts\<close>, lines 118 to 243): the class owns an
    \<open>AbortController\<close> and rejects from an \<open>abort\<close> listener on its signal;
  \<^item> the linked draft (\<open>src/index.ts\<close>, lines 244 to 375): the constructor takes a signal
    and forwards its abort to the controller the class owns;
  \<^item> \<open>src/unnamed/part_000\<close>: the controller draft without the \<open>abortSignal\<close> getter.

  Values that a promise is rejected with, or that a callback throws, are JavaScript values of
  type \<open>any\<close>. Three shapes occur in the source: an instance of \<open>AbortError\<close> with its message,
  the object literal \<open>{errorType, description}\<close> of \<open>Ble.sendRequest\<close>, and anything else.
\<close>

datatype 'c error = AbortError string | ErrorObject string 'c | Other 'c

datatype ('v, 'c) promise = Pending | Fulfilled 'v | Rejected "'c error"

text \<open>
  A call of one of the two resolving functions that the native \<open>Promise\<close> constructor hands
  to its executor. The first call settles the promise and every later call does nothing.
  Fulfilment values are plain values (not thenables), as in the source.
\<close>

datatype ('v, 'c) outcome = Resolve 'v | Reject "'c error"

fun settle :: "('v, 'c) outcome \<Rightarrow> ('v, 'c) promise \<Rightarrow> ('v, 'c) promise" where
  "settle (Resolve v) Pending = Fulfilled v"
| "settle (Reject e) Pending = Rejected e"
| "settle _ p = p"

text \<open>
  A callback of type \<open>() => void\<close> written by the producer: a cancellation hook or an
  \<open>abort\<close> listener. Its body is a sequence of calls of \<open>resolve\<close> and \<open>reject\<close> and of
  effects outside the promise (\<open>clearTimeout\<close>, \<open>console.log\<close>), and it may throw.
\<close>

datatype ('v, 'c) cmd = Settle "('v, 'c) outcome" | Effect string | Throw "'c error"

type_synonym ('v, 'c) callback = "('v, 'c) cmd list"

text \<open>
  The part of the state that all drafts share: the private fields \<open>#promise\<close> and
  \<open>#abortReason\<close>, the outside effects performed so far, and the callbacks invoked so far,
  in order.
\<close>

record ('v, 'c) world =
  promise :: "('v, 'c) promise"
  abortReason :: "string option"
  effects :: "string list"
  invoked :: "('v, 'c) callback list"

fun exec :: "('v, 'c) callback \<Rightarrow> ('v, 'c, 'z) world_scheme \<Rightarrow>
    'c error option \<times> ('v, 'c, 'z) world_scheme" where
  "exec [] w = (None, w)"
| "exec (Settle out # cs) w = exec cs (w\<lparr>promise := settle out (promise w)\<rparr>)"
| "exec (Effect l # cs) w = exec cs (w\<lparr>effects := effects w @ [l]\<rparr>)"
| "exec (Throw x # cs) w = (Some x, w)"

definition call :: "('v, 'c) callback \<Rightarrow> ('v, 'c, 'z) world_scheme \<Rightarrow>
    'c error option \<times> ('v, 'c, 'z) world_scheme" where
  "call h w = exec h (w\<lparr>invoked := invoked w @ [h]\<rparr>)"

text \<open>The exception that leaves a callback, if any: its first \<open>throw\<close>.\<close>

fun thrown :: "('v, 'c) callback \<Rightarrow> 'c error option" where
  "thrown [] = None"
| "thrown (Throw x # cs) = Some x"
| "thrown (_ # cs) = thrown cs"

text \<open>Whether a callback calls \<open>resolve\<close> or \<open>reject\<close> before it returns or throws.\<close>

fun settles :: "('v, 'c) callback \<Rightarrow> bool" where
  "settles [] = False"
| "settles (Settle out # cs) = True"
| "settles (Effect l # cs) = settles cs"
| "settles (Throw x # cs) = False"

text \<open>The default value of the parameter of \<open>abort(reason: string = 'Promise was aborted.')\<close>.\<close>

definition default_reason :: string where
  "default_reason = ''Promise was aborted.''"

definition reason_or_default :: "string option \<Rightarrow> string" where
  "reason_or_default r = (case r of None \<Rightarrow> default_reason | Some m \<Rightarrow> m)"


text \<open>
  A run of an operation: the events of its life, in the order in which the single thread of
  control handles them. \<open>history\<close> lists the states the run passes through.
\<close>

fun run :: "('e \<Rightarrow> 's \<Rightarrow> 's) \<Rightarrow> 'e list \<Rightarrow> 's \<Rightarrow> 's" where
  "run step [] s = s"
| "run step (e # es) s = run step es (step e s)"


section \<open>The demonstration producer\<close>

datatype TestType = LIPID_GLUCOSE | BLOOD_PRESSURE

record response =
  data :: nat
  testType :: TestType

text \<open>
  The \<open>try\<close>/\<open>catch\<close> of \<open>operation\<close> in \<open>Ble.sendRequest\<close>: the awaited promise either
  yields \<open>bleData\<close>, which is passed to \<open>resolve\<close>, or fails with \<open>error\<close>, which is wrapped
  into \<open>{errorType: 'OPERATION_ERROR', description: error}\<close> and passed to \<open>reject\<close>.
\<close>

definition operation :: "'c + 'v \<Rightarrow> ('v, 'c) outcome" where
  "operation awaited =
     (case awaited of
        Inr bleData \<Rightarrow> Resolve bleData
      | Inl error \<Rightarrow> Reject (ErrorObject ''OPERATION_ERROR'' error))"

text \<open>What the timer of \<open>Ble.sendRequest\<close> delivers after three seconds.\<close>

definition bleData :: "TestType \<Rightarrow> response" where
  "bleData t = \<lparr>data = 50, testType = t\<rparr>"

text \<open>The hook that \<open>Ble.sendRequest\<close> of the hook draft passes to \<open>onCancel\<close>.\<close>

definition ble_onCancel :: "('v, 'c) callback" where
  "ble_onCancel =
     [Effect ''clearTimeout'',
      Effect ''console.log BLE operation cancelled'',
      Settle (Reject (AbortError ''Promise was aborted.''))]"

text \<open>The body of the \<open>abort\<close> listener of \<open>Ble.sendRequest\<close> in the controller and linked drafts.\<close>

definition ble_listener :: "('v, 'c) callback" where
  "ble_listener =
     [Effect ''clearTimeout'',
      Effect ''console.log BLE operation cancelled'']"

section \<open>The hook draft\<close>

record ('v, 'c) hooked = "('v, 'c) world" +
  onCancel :: "('v, 'c) callback option"

text \<open>
  The constructor creates the native promise and runs the executor. What the executor does
  with \<open>resolve\<close>, \<open>reject\<close> and \<open>onCancel\<close>, at once or later, arrives as events.
\<close>

definition new1 :: "('v, 'c) hooked" where
  "new1 = \<lparr>promise = Pending, abortReason = None, effects = [], invoked = [], onCancel = None\<rparr>"

text \<open>
  \<open>abort\<close>, lines 48 to 56. An exception thrown by the hook leaves \<open>abort\<close> before the
  hook is cleared and before the reason is stored. The last statement,
  \<open>this.#promise.catch(() => {})\<close>, derives a second promise and leaves \<open>#promise\<close> as it is.
\<close>

definition abort1 :: "string option \<Rightarrow> ('v, 'c) hooked \<Rightarrow> 'c error option \<times> ('v, 'c) hooked" where
  "abort1 reason s =
     (case onCancel s of
        None \<Rightarrow> (None, s\<lparr>abortReason := Some (reason_or_default reason)\<rparr>)
      | Some cancelFn \<Rightarrow>
          (case call cancelFn s of
             (Some x, s') \<Rightarrow> (Some x, s')
           | (None, s') \<Rightarrow>
               (None, s'\<lparr>onCancel := None, abortReason := Some (reason_or_default reason)\<rparr>)))"

datatype ('v, 'c) event1 =
    Executor1 "('v, 'c) outcome"
  | OnCancel "('v, 'c) callback"
  | Abort1 "string option"

fun step1 :: "('v, 'c) event1 \<Rightarrow> ('v, 'c) hooked \<Rightarrow> ('v, 'c) hooked" where
  "step1 (Executor1 out) s = s\<lparr>promise := settle out (promise s)\<rparr>"
| "step1 (OnCancel cancelFn) s = s\<lparr>onCancel := Some cancelFn\<rparr>"
| "step1 (Abort1 reason) s = snd (abort1 reason s)"

fun is_abort1 :: "('v, 'c) event1 \<Rightarrow> bool" where
  "is_abort1 (Abort1 reason) = True"
| "is_abort1 _ = False"


section \<open>The controller draft\<close>

text \<open>
  The listeners of the signal of the controller that the class owns: the one the constructor
  adds, \<open>reject(new AbortError(this.#abortReason ?? 'Promise was aborted.'))\<close>, and the ones
  the producer adds through the \<open>abortSignal\<close> getter.
\<close>

datatype ('v, 'c) listener = RejectOnAbort | Callback "('v, 'c) callback"

record ('v, 'c) controlled = "('v, 'c) world" +
  aborted :: bool
  listeners :: "('v, 'c) listener list"

text \<open>
  Event dispatch runs the listeners in the order of their registration. An exception thrown
  by a listener is reported and the dispatch goes on.
\<close>

fun notify :: "('v, 'c) listener \<Rightarrow> ('v, 'c, 'z) controlled_scheme \<Rightarrow> ('v, 'c, 'z) controlled_scheme" where
  "notify RejectOnAbort s =
     s\<lparr>promise := settle (Reject (AbortError (reason_or_default (abortReason s)))) (promise s)\<rparr>"
| "notify (Callback h) s = snd (call h s)"

fun dispatch :: "('v, 'c) listener list \<Rightarrow> ('v, 'c, 'z) controlled_scheme \<Rightarrow> ('v, 'c, 'z) controlled_scheme" where
  "dispatch [] s = s"
| "dispatch (l # ls) s = dispatch ls (notify l s)"

text \<open>
  \<open>AbortController.abort()\<close> of the platform: nothing on a signal that is aborted already;
  otherwise the signal becomes aborted and the \<open>abort\<close> event is fired, once.
\<close>

definition controller_abort :: "('v, 'c, 'z) controlled_scheme \<Rightarrow> ('v, 'c, 'z) controlled_scheme" where
  "controller_abort s = (if aborted s then s else dispatch (listeners s) (s\<lparr>aborted := True\<rparr>))"

text \<open>
  The constructor, lines 138 to 146: a fresh controller, then the rejecting listener, then the
  executor.
\<close>

definition new2 :: "('v, 'c) controlled" where
  "new2 = \<lparr>promise = Pending, abortReason = None, effects = [], invoked = [],
           aborted = False, listeners = [RejectOnAbort]\<rparr>"

text \<open>\<open>abort\<close>, lines 168 to 173, and lines 51 to 56 of \<open>part_000\<close>.\<close>

definition abort2 :: "string option \<Rightarrow> ('v, 'c) controlled \<Rightarrow> ('v, 'c) controlled" where
  "abort2 reason s =
     (if \<not> aborted s
      then controller_abort (s\<lparr>abortReason := Some (reason_or_default reason)\<rparr>)
      else s)"

text \<open>
  \<open>Listen2\<close> is \<open>abortSignal.addEventListener('abort', h)\<close>. The draft of \<open>part_000\<close> has no
  \<open>abortSignal\<close> getter: its runs are the runs without \<open>Listen2\<close>.
\<close>

datatype ('v, 'c) event2 =
    Executor2 "('v, 'c) outcome"
  | Listen2 "('v, 'c) callback"
  | Abort2 "string option"

fun step2 :: "('v, 'c) event2 \<Rightarrow> ('v, 'c) controlled \<Rightarrow> ('v, 'c) controlled" where
  "step2 (Executor2 out) s = s\<lparr>promise := settle out (promise s)\<rparr>"
| "step2 (Listen2 h) s = s\<lparr>listeners := listeners s @ [Callback h]\<rparr>"
| "step2 (Abort2 reason) s = abort2 reason s"

text \<open>The callbacks among a list of listeners, in order.\<close>

fun callbacks :: "('v, 'c) listener list \<Rightarrow> ('v, 'c) callback list" where
  "callbacks [] = []"
| "callbacks (RejectOnAbort # ls) = callbacks ls"
| "callbacks (Callback h # ls) = h # callbacks ls"


section \<open>The linked draft\<close>

text \<open>
  The signal handed to the constructor, as the constructor finds it: whether it is aborted,
  the reason of its abort, and the \<open>abort\<close> listeners that others have added.
\<close>

record ('v, 'c) signal =
  sAborted :: bool
  sReason :: "'c error option"
  sListeners :: "('v, 'c) callback list"

text \<open>
  The listeners of the given signal: the one the constructor adds (lines 273 to 278) and the
  ones added by others.
\<close>

datatype ('v, 'c) outer_listener = Forward | Outside "('v, 'c) callback"

record ('v, 'c) linked = "('v, 'c) controlled" +
  signalAborted :: bool
  signalReason :: "'c error option"
  signalListeners :: "('v, 'c) outer_listener list"

text \<open>The body of the listener of lines 273 to 278.\<close>

definition forward :: "('v, 'c) linked \<Rightarrow> ('v, 'c) linked" where
  "forward s =
     (if \<not> aborted s
      then controller_abort (s\<lparr>abortReason := Some ''Promise was aborted.''\<rparr>)
      else s)"

fun notify_outer :: "('v, 'c) outer_listener \<Rightarrow> ('v, 'c) linked \<Rightarrow> ('v, 'c) linked" where
  "notify_outer Forward s = forward s"
| "notify_outer (Outside h) s = snd (call h s)"

fun dispatch_outer :: "('v, 'c) outer_listener list \<Rightarrow> ('v, 'c) linked \<Rightarrow> ('v, 'c) linked" where
  "dispatch_outer [] s = s"
| "dispatch_outer (l # ls) s = dispatch_outer ls (notify_outer l s)"

text \<open>
  The controller of the given signal aborts, \<open>abortController.abort(reason)\<close>: the platform
  stores the reason in the signal and fires the signal's \<open>abort\<close> event, unless the signal is
  aborted already.
\<close>

definition signal_abort :: "'c error option \<Rightarrow> ('v, 'c) linked \<Rightarrow> ('v, 'c) linked" where
  "signal_abort reason s =
     (if signalAborted s then s
      else dispatch_outer (signalListeners s) (s\<lparr>signalAborted := True, signalReason := reason\<rparr>))"

text \<open>The constructor, lines 265 to 287, up to the call of the executor.\<close>

definition new3 :: "('v, 'c) signal \<Rightarrow> ('v, 'c) linked" where
  "new3 sig =
     (let s0 = \<lparr>promise = Pending, abortReason = None, effects = [], invoked = [],
                aborted = False, listeners = [],
                signalAborted = sAborted sig, signalReason = sReason sig,
                signalListeners = map Outside (sListeners sig)\<rparr>;
          s1 = (if signalAborted s0 then controller_abort s0 else s0);
          s2 = s1\<lparr>signalListeners := signalListeners s1 @ [Forward]\<rparr>
      in s2\<lparr>listeners := listeners s2 @ [RejectOnAbort]\<rparr>)"

text \<open>
  \<open>Listen3\<close> is \<open>signal.addEventListener('abort', h)\<close> on the given signal, as
  \<open>Ble.sendRequest\<close> does after the construction; \<open>SignalAbort\<close> is the abort of the given
  signal by the controller it belongs to.
\<close>

datatype ('v, 'c) event3 =
    Executor3 "('v, 'c) outcome"
  | Listen3 "('v, 'c) callback"
  | SignalAbort "'c error option"

fun step3 :: "('v, 'c) event3 \<Rightarrow> ('v, 'c) linked \<Rightarrow> ('v, 'c) linked" where
  "step3 (Executor3 out) s = s\<lparr>promise := settle out (promise s)\<rparr>"
| "step3 (Listen3 h) s = s\<lparr>signalListeners := signalListeners s @ [Outside h]\<rparr>"
| "step3 (SignalAbort reason) s = signal_abort reason s"

text \<open>The calls of \<open>resolve\<close> and \<open>reject\<close> that the executor makes in a run.\<close>

fun executor_calls :: "('v, 'c) event3 list \<Rightarrow> ('v, 'c) outcome list" where
  "executor_calls [] = []"
| "executor_calls (Executor3 out # es) = out # executor_calls es"
| "executor_calls (_ # es) = executor_calls es"

fun is_reject :: "('v, 'c) outcome \<Rightarrow> bool" where
  "is_reject (Reject e) = True"
| "is_reject (Resolve v) = False"


section \<open>Invariants of the runs\<close>

text \<open>
  In the controller draft the rejecting listener is the first listener of the signal, and an
  aborted signal means a settled promise.
\<close>

definition inv2 :: "('v, 'c) controlled \<Rightarrow> bool" where
  "inv2 s \<longleftrightarrow> (\<exists>ls. listeners s = RejectOnAbort # ls) \<and> (aborted s \<longrightarrow> promise s \<noteq> Pending)"

text \<open>
  In the linked draft the controller of the class is aborted exactly when the given signal is,
  its signal has the rejecting listener only, and the forwarding listener follows the
  listeners that the given signal had at construction.
\<close>

definition inv3 :: "('v, 'c) signal \<Rightarrow> ('v, 'c) linked \<Rightarrow> bool" where
  "inv3 sig s \<longleftrightarrow>
     aborted s = signalAborted s \<and> listeners s = [RejectOnAbort] \<and>
     (\<exists>post. signalListeners s = map Outside (sListeners sig) @ Forward # map Outside post)"

text \<open>When the given signal was live at construction, an aborted signal means a settled promise.\<close>

definition live3 :: "('v, 'c) signal \<Rightarrow> ('v, 'c) linked \<Rightarrow> bool" where
  "live3 sig s \<longleftrightarrow> inv3 sig s \<and> (signalAborted s \<longrightarrow> promise s \<noteq> Pending)"

section \<open>Callbacks and settlement\<close>

lemma settle_terminal: "p \<noteq> Pending \<Longrightarrow> settle out p = p"
  by (cases p; cases out) simp_all

lemma settle_Pending: "settle out Pending \<noteq> Pending"
  by (cases out) simp_all

lemma exec_thrown: "fst (exec h w) = thrown h"
  by (induction h w rule: exec.induct) simp_all

lemma exec_invoked: "invoked (snd (exec h w)) = invoked w"
  by (induction h w rule: exec.induct) simp_all

lemma exec_abortReason: "abortReason (snd (exec h w)) = abortReason w"
  by (induction h w rule: exec.induct) simp_all

lemma exec_more: "world.more (snd (exec h w)) = world.more w"
  by (induction h w rule: exec.induct) simp_all

lemma exec_terminal: "promise w \<noteq> Pending \<Longrightarrow> promise (snd (exec h w)) = promise w"
  by (induction h w rule: exec.induct) (simp_all add: settle_terminal)

lemma exec_no_settle: "\<not> settles h \<Longrightarrow> promise (snd (exec h w)) = promise w"
  by (induction h w rule: exec.induct) simp_all

lemma exec_onCancel: "onCancel (snd (exec h s)) = onCancel s"
  by (induction h s rule: exec.induct) simp_all

lemma exec_aborted: "aborted (snd (exec h s)) = aborted s"
  by (induction h s rule: exec.induct) simp_all

lemma exec_listeners: "listeners (snd (exec h s)) = listeners s"
  by (induction h s rule: exec.induct) simp_all

lemma exec_signalAborted: "signalAborted (snd (exec h s)) = signalAborted s"
  by (induction h s rule: exec.induct) simp_all

lemma exec_signalReason: "signalReason (snd (exec h s)) = signalReason s"
  by (induction h s rule: exec.induct) simp_all

lemma exec_signalListeners: "signalListeners (snd (exec h s)) = signalListeners s"
  by (induction h s rule: exec.induct) simp_all

lemmas exec_fields = exec_invoked exec_abortReason exec_onCancel exec_aborted exec_listeners
  exec_signalAborted exec_signalReason exec_signalListeners

lemma call_thrown: "fst (call h w) = thrown h"
  by (simp add: call_def exec_thrown)

lemma call_invoked: "invoked (snd (call h w)) = invoked w @ [h]"
  by (simp add: call_def exec_invoked)

lemma call_terminal: "promise w \<noteq> Pending \<Longrightarrow> promise (snd (call h w)) = promise w"
  by (simp add: call_def exec_terminal)

lemma call_no_settle: "\<not> settles h \<Longrightarrow> promise (snd (call h w)) = promise w"
  by (simp add: call_def exec_no_settle)

lemma invoked_promise_commute:
  "w\<lparr>invoked := x, promise := p\<rparr> = w\<lparr>promise := p, invoked := x\<rparr>"
  by (cases w) simp

lemma invoked_effects_commute:
  "w\<lparr>invoked := x, effects := l\<rparr> = w\<lparr>effects := l, invoked := x\<rparr>"
  by (cases w) simp

lemma exec_invoked_update:
  "exec h (w\<lparr>invoked := x\<rparr>) = (fst (exec h w), (snd (exec h w))\<lparr>invoked := x\<rparr>)"
  by (induction h w rule: exec.induct)
     (simp_all add: invoked_promise_commute invoked_effects_commute)

lemma call_exec: "call h w = (thrown h, (snd (exec h w))\<lparr>invoked := invoked w @ [h]\<rparr>)"
  by (simp add: call_def exec_invoked_update exec_thrown)

lemma call_promise: "promise (snd (call h w)) = promise (snd (exec h w))"
  by (simp add: call_exec)

lemma call_fields:
  "abortReason (snd (call h w)) = abortReason w"
  "onCancel (snd (call h s1)) = onCancel s1"
  "aborted (snd (call h s2)) = aborted s2"
  "listeners (snd (call h s2)) = listeners s2"
  "signalAborted (snd (call h s3)) = signalAborted s3"
  "signalReason (snd (call h s3)) = signalReason s3"
  "signalListeners (snd (call h s3)) = signalListeners s3"
  by (simp_all add: call_def exec_fields)

subsection \<open>The hook draft\<close>

lemma abort1_thrown:
  "fst (abort1 r s) = (case onCancel s of None \<Rightarrow> None | Some h \<Rightarrow> thrown h)"
  by (auto simp: abort1_def call_exec split: option.splits)

lemma abort1_promise:
  "promise (snd (abort1 r s)) = (case onCancel s of None \<Rightarrow> promise s | Some h \<Rightarrow> promise (snd (exec h s)))"
  by (auto simp: abort1_def call_exec split: option.splits)

lemma abort1_invoked:
  "invoked (snd (abort1 r s)) = invoked s @ (case onCancel s of None \<Rightarrow> [] | Some h \<Rightarrow> [h])"
  by (auto simp: abort1_def call_exec exec_invoked split: option.splits)

lemma abort1_terminal: "promise s \<noteq> Pending \<Longrightarrow> promise (snd (abort1 r s)) = promise s"
  by (simp add: abort1_promise exec_terminal split: option.splits)

lemma step1_terminal: "promise s \<noteq> Pending \<Longrightarrow> promise (step1 e s) = promise s"
  by (cases e) (simp_all add: settle_terminal abort1_terminal)

subsection \<open>Runs\<close>

lemma run_append: "run step (es @ es') s = run step es' (run step es s)"
  by (induction es arbitrary: s) simp_all

lemma run_terminal:
  assumes stable: "\<And>e s. promise s \<noteq> Pending \<Longrightarrow> promise (step e s) = promise s"
  shows "promise s \<noteq> Pending \<Longrightarrow> promise (run step es s) = promise s"
  by (induction es arbitrary: s) (simp_all add: stable)



subsection \<open>The controller draft\<close>

lemma notify_terminal: "promise s \<noteq> Pending \<Longrightarrow> promise (notify l s) = promise s"
  by (cases l) (simp_all add: settle_terminal call_terminal)

lemma notify_fields:
  "aborted (notify l s) = aborted s"
  "listeners (notify l s) = listeners s"
  "abortReason (notify l s) = abortReason s"
  by (cases l; simp add: call_fields)+

lemma notify_invoked: "invoked (notify l s) = invoked s @ callbacks [l]"
  by (cases l) (simp_all add: call_invoked)

lemma dispatch_terminal: "promise s \<noteq> Pending \<Longrightarrow> promise (dispatch ls s) = promise s"
  by (induction ls arbitrary: s) (simp_all add: notify_terminal)

lemma dispatch_fields:
  "aborted (dispatch ls s) = aborted s"
  "listeners (dispatch ls s) = listeners s"
  "abortReason (dispatch ls s) = abortReason s"
  by (induction ls arbitrary: s; simp add: notify_fields)+

lemma callbacks_Cons: "callbacks (l # ls) = callbacks [l] @ callbacks ls"
  by (cases l) simp_all

lemma dispatch_invoked: "invoked (dispatch ls s) = invoked s @ callbacks ls"
proof (induction ls arbitrary: s)
  case Nil
  show ?case by simp
next
  case (Cons l ls)
  show ?case
    using Cons[of "notify l s"] callbacks_Cons[of l ls]
    by (simp add: notify_invoked)
qed

lemma controller_abort_terminal:
  "promise s \<noteq> Pending \<Longrightarrow> promise (controller_abort s) = promise s"
  by (simp add: controller_abort_def dispatch_terminal)

lemma controller_abort_aborted: "aborted (controller_abort s)"
  by (simp add: controller_abort_def dispatch_fields)

lemma controller_abort_listeners: "listeners (controller_abort s) = listeners s"
  by (simp add: controller_abort_def dispatch_fields)

lemma controller_abort_invoked:
  "invoked (controller_abort s) = invoked s @ (if aborted s then [] else callbacks (listeners s))"
  by (simp add: controller_abort_def dispatch_invoked)

lemma controller_abort_rejects:
  assumes "\<not> aborted s" "promise s = Pending" "listeners s = RejectOnAbort # ls"
  shows "promise (controller_abort s) = Rejected (AbortError (reason_or_default (abortReason s)))"
  using assms by (simp add: controller_abort_def dispatch_terminal)

lemma abort2_terminal: "promise s \<noteq> Pending \<Longrightarrow> promise (abort2 r s) = promise s"
  by (simp add: abort2_def controller_abort_terminal)

lemma abort2_invoked:
  "invoked (abort2 r s) = invoked s @ (if aborted s then [] else callbacks (listeners s))"
  by (simp add: abort2_def controller_abort_invoked)

lemma abort2_aborted: "aborted (abort2 r s)"
  by (simp add: abort2_def controller_abort_aborted)

lemma abort2_twice: "abort2 r' (abort2 r s) = abort2 r s"
  using abort2_aborted[of r s] by (simp add: abort2_def[of r'])

lemma abort2_rejects:
  assumes "\<not> aborted s" "promise s = Pending" "listeners s = RejectOnAbort # ls"
  shows "promise (abort2 r s) = Rejected (AbortError (reason_or_default r))"
  using assms controller_abort_rejects[of "s\<lparr>abortReason := Some (reason_or_default r)\<rparr>" ls]
  by (simp add: abort2_def reason_or_default_def)

lemma step2_terminal: "promise s \<noteq> Pending \<Longrightarrow> promise (step2 e s) = promise s"
  by (cases e) (simp_all add: settle_terminal abort2_terminal)

lemma inv2_new2: "inv2 new2"
  by (simp add: inv2_def new2_def)

lemma inv2_step2: "inv2 s \<Longrightarrow> inv2 (step2 e s)"
proof (cases e)
  case (Executor2 out)
  assume "inv2 s"
  then show ?thesis
    using Executor2 by (auto simp: inv2_def settle_terminal)
next
  case (Listen2 h)
  assume "inv2 s"
  then show ?thesis
    using Listen2 by (auto simp: inv2_def)
next
  case (Abort2 r)
  assume i: "inv2 s"
  show ?thesis
  proof (cases "aborted s")
    case True
    then show ?thesis using i Abort2 by (simp add: abort2_def)
  next
    case False
    from i obtain ls where ls: "listeners s = RejectOnAbort # ls"
      by (auto simp: inv2_def)
    have "promise (abort2 r s) \<noteq> Pending"
    proof (cases "promise s = Pending")
      case True
      then show ?thesis using abort2_rejects[OF False True ls, of r] by simp
    next
      case False
      then show ?thesis by (simp add: abort2_terminal)
    qed
    moreover have "listeners (abort2 r s) = listeners s"
      by (simp add: abort2_def controller_abort_listeners)
    ultimately show ?thesis
      using ls Abort2 by (simp add: inv2_def)
  qed
qed

lemma inv2_run: "inv2 s \<Longrightarrow> inv2 (run step2 es s)"
  by (induction es arbitrary: s) (simp_all add: inv2_step2)

subsection \<open>The linked draft\<close>

lemma notify_signal:
  "signalAborted (notify l s) = signalAborted s"
  "signalReason (notify l s) = signalReason s"
  "signalListeners (notify l s) = signalListeners s"
  by (cases l; simp add: call_fields)+

lemma dispatch_signal:
  "signalAborted (dispatch ls s) = signalAborted s"
  "signalReason (dispatch ls s) = signalReason s"
  "signalListeners (dispatch ls s) = signalListeners s"
  by (induction ls arbitrary: s; simp add: notify_signal)+

lemma controller_abort_signal:
  "signalAborted (controller_abort s) = signalAborted s"
  "signalReason (controller_abort s) = signalReason s"
  "signalListeners (controller_abort s) = signalListeners s"
  by (simp_all add: controller_abort_def dispatch_signal)

lemma forward_terminal: "promise s \<noteq> Pending \<Longrightarrow> promise (forward s) = promise s"
  by (simp add: forward_def controller_abort_terminal)

lemma forward_fields:
  "signalAborted (forward s) = signalAborted s"
  "signalListeners (forward s) = signalListeners s"
  "listeners (forward s) = listeners s"
  by (simp_all add: forward_def controller_abort_signal controller_abort_listeners)

lemma forward_aborted: "aborted (forward s)"
  by (simp add: forward_def controller_abort_aborted)

lemma forward_rejects:
  assumes "\<not> aborted s" "promise s = Pending" "listeners s = RejectOnAbort # ls"
  shows "promise (forward s) = Rejected (AbortError ''Promise was aborted.'')"
  using assms controller_abort_rejects[of "s\<lparr>abortReason := Some ''Promise was aborted.''\<rparr>" ls]
  by (simp add: forward_def reason_or_default_def)

lemma notify_outer_terminal: "promise s \<noteq> Pending \<Longrightarrow> promise (notify_outer l s) = promise s"
  by (cases l) (simp_all add: forward_terminal call_terminal)

lemma notify_outer_fields:
  "signalAborted (notify_outer l s) = signalAborted s"
  "signalListeners (notify_outer l s) = signalListeners s"
  "listeners (notify_outer l s) = listeners s"
  by (cases l; simp add: forward_fields call_fields)+

lemma notify_outer_aborted: "aborted s \<Longrightarrow> aborted (notify_outer l s)"
  by (cases l) (simp_all add: forward_aborted call_fields)

lemma dispatch_outer_terminal:
  "promise s \<noteq> Pending \<Longrightarrow> promise (dispatch_outer ls s) = promise s"
  by (induction ls arbitrary: s) (simp_all add: notify_outer_terminal)

lemma dispatch_outer_fields:
  "signalAborted (dispatch_outer ls s) = signalAborted s"
  "signalListeners (dispatch_outer ls s) = signalListeners s"
  "listeners (dispatch_outer ls s) = listeners s"
  by (induction ls arbitrary: s; simp add: notify_outer_fields)+

lemma dispatch_outer_aborted: "aborted s \<Longrightarrow> aborted (dispatch_outer ls s)"
  by (induction ls arbitrary: s) (simp_all add: notify_outer_aborted)

lemma dispatch_outer_append:
  "dispatch_outer (xs @ ys) s = dispatch_outer ys (dispatch_outer xs s)"
  by (induction xs arbitrary: s) simp_all

lemma dispatch_outside_aborted:
  "aborted (dispatch_outer (map Outside hs) s) = aborted s"
  by (induction hs arbitrary: s) (simp_all add: call_fields)

lemma dispatch_outside_promise:
  "\<forall>h \<in> set hs. \<not> settles h \<Longrightarrow> promise (dispatch_outer (map Outside hs) s) = promise s"
  by (induction hs arbitrary: s) (simp_all add: call_no_settle)

lemma new3_fields:
  "promise (new3 sig) = Pending"
  "aborted (new3 sig) = sAborted sig"
  "signalAborted (new3 sig) = sAborted sig"
  "listeners (new3 sig) = [RejectOnAbort]"
  "signalListeners (new3 sig) = map Outside (sListeners sig) @ [Forward]"
  "invoked (new3 sig) = []"
  by (simp_all add: new3_def Let_def controller_abort_def)

lemma inv3_new3: "inv3 sig (new3 sig)"
  by (simp add: inv3_def new3_fields)

lemma signal_abort_aborted:
  assumes "inv3 sig s"
  shows "aborted (signal_abort r s)"
proof (cases "signalAborted s")
  case True
  then show ?thesis using assms by (simp add: signal_abort_def inv3_def)
next
  case False
  from assms obtain post where
    "signalListeners s = map Outside (sListeners sig) @ Forward # map Outside post"
    by (auto simp: inv3_def)
  then show ?thesis
    using False
    by (simp add: signal_abort_def dispatch_outer_append dispatch_outer_aborted forward_aborted)
qed

lemma inv3_step3: "inv3 sig s \<Longrightarrow> inv3 sig (step3 e s)"
proof (cases e)
  case (Executor3 out)
  assume "inv3 sig s"
  then show ?thesis using Executor3 by (simp add: inv3_def)
next
  case (Listen3 h)
  assume "inv3 sig s"
  then obtain post where
    "signalListeners s = map Outside (sListeners sig) @ Forward # map Outside post"
    and "aborted s = signalAborted s" "listeners s = [RejectOnAbort]"
    by (auto simp: inv3_def)
  then have "signalListeners (step3 e s) =
      map Outside (sListeners sig) @ Forward # map Outside (post @ [h])"
    and "aborted (step3 e s) = signalAborted (step3 e s)" "listeners (step3 e s) = [RejectOnAbort]"
    using Listen3 by simp_all
  then show ?thesis unfolding inv3_def by blast
next
  case (SignalAbort r)
  assume i: "inv3 sig s"
  show ?thesis
  proof (cases "signalAborted s")
    case True
    then show ?thesis using i SignalAbort by (simp add: signal_abort_def)
  next
    case False
    have "aborted (signal_abort r s)"
      using i by (rule signal_abort_aborted)
    moreover have "signalAborted (signal_abort r s)"
      using False by (simp add: signal_abort_def dispatch_outer_fields)
    moreover have "listeners (signal_abort r s) = listeners s"
      and "signalListeners (signal_abort r s) = signalListeners s"
      by (simp_all add: signal_abort_def dispatch_outer_fields)
    ultimately show ?thesis
      using i SignalAbort by (simp add: inv3_def)
  qed
qed

lemma inv3_run: "inv3 sig s \<Longrightarrow> inv3 sig (run step3 es s)"
  by (induction es arbitrary: s) (simp_all add: inv3_step3)

lemma step3_terminal: "promise s \<noteq> Pending \<Longrightarrow> promise (step3 e s) = promise s"
  by (cases e) (simp_all add: settle_terminal signal_abort_def dispatch_outer_terminal)

lemma signal_abort_rejects:
  assumes i: "inv3 sig s" and live: "\<not> signalAborted s" and p: "promise s = Pending"
    and pre: "\<forall>h \<in> set (sListeners sig). \<not> settles h"
  shows "promise (signal_abort r s) = Rejected (AbortError ''Promise was aborted.'')"
proof -
  from i obtain post where
    ls: "signalListeners s = map Outside (sListeners sig) @ Forward # map Outside post"
    and a: "aborted s = signalAborted s" and l: "listeners s = [RejectOnAbort]"
    by (auto simp: inv3_def)
  define s1 where "s1 = s\<lparr>signalAborted := True, signalReason := r\<rparr>"
  define s2 where "s2 = dispatch_outer (map Outside (sListeners sig)) s1"
  have "\<not> aborted s2"
    using a live by (simp add: s2_def s1_def dispatch_outside_aborted)
  moreover have "promise s2 = Pending"
    using pre p by (simp add: s2_def s1_def dispatch_outside_promise)
  moreover have "listeners s2 = [RejectOnAbort]"
    using l by (simp add: s2_def s1_def dispatch_outer_fields)
  ultimately have "promise (forward s2) = Rejected (AbortError ''Promise was aborted.'')"
    by (rule forward_rejects)
  then have "promise (dispatch_outer (map Outside post) (forward s2)) =
      Rejected (AbortError ''Promise was aborted.'')"
    by (simp add: dispatch_outer_terminal)
  then show ?thesis
    using live ls by (simp add: signal_abort_def dispatch_outer_append s2_def s1_def)
qed

lemma run3_aborted_signal:
  "signalAborted s \<Longrightarrow>
     promise (run step3 es s) = fold settle (executor_calls es) (promise s) \<and>
     signalAborted (run step3 es s) \<and> aborted (run step3 es s) = aborted s \<and>
     invoked (run step3 es s) = invoked s"
proof (induction es arbitrary: s)
  case Nil
  then show ?case by simp
next
  case (Cons e es)
  show ?case
    using Cons.prems Cons.IH[of "step3 e s"]
    by (cases e) (simp_all add: signal_abort_def)
qed

lemma fold_settle_terminal: "p \<noteq> Pending \<Longrightarrow> fold settle outs p = p"
  by (induction outs arbitrary: p) (simp_all add: settle_terminal)

lemma fold_settle_no_reject:
  "\<forall>out \<in> set outs. \<not> is_reject out \<Longrightarrow> fold settle outs Pending \<noteq> Rejected e"
proof (induction outs)
  case Nil
  show ?case by simp
next
  case (Cons out outs)
  then show ?case
    by (cases out) (simp_all add: fold_settle_terminal)
qed

subsection \<open>Runs from a fresh operation\<close>

lemma run1_only_aborts:
  "\<forall>e \<in> set es. is_abort1 e \<Longrightarrow> onCancel s = None \<Longrightarrow> promise s = Pending \<Longrightarrow>
     promise (run step1 es s) = Pending"
proof (induction es arbitrary: s)
  case Nil
  then show ?case by simp
next
  case (Cons e es)
  from Cons.prems obtain r where e: "e = Abort1 r"
    by (cases e) simp_all
  have "onCancel (step1 e s) = None" "promise (step1 e s) = Pending"
    using Cons.prems e by (simp_all add: abort1_def)
  then show ?case
    using Cons.IH[of "step1 e s"] Cons.prems by simp
qed

lemma live3_step3:
  assumes pre: "\<forall>h \<in> set (sListeners sig). \<not> settles h" and l: "live3 sig s"
  shows "live3 sig (step3 e s)"
proof -
  have i: "inv3 sig s" using l by (simp add: live3_def)
  have i': "inv3 sig (step3 e s)" using i by (rule inv3_step3)
  have "signalAborted (step3 e s) \<longrightarrow> promise (step3 e s) \<noteq> Pending"
  proof (cases e)
    case (Executor3 out)
    then show ?thesis using l by (simp add: live3_def settle_terminal)
  next
    case (Listen3 h)
    then show ?thesis using l by (simp add: live3_def)
  next
    case (SignalAbort r)
    show ?thesis
    proof (cases "signalAborted s \<or> promise s \<noteq> Pending")
      case True
      then have "promise s \<noteq> Pending" using l by (auto simp: live3_def)
      then show ?thesis by (simp add: step3_terminal)
    next
      case False
      then show ?thesis
        using SignalAbort signal_abort_rejects[OF i _ _ pre, of r] by simp
    qed
  qed
  then show ?thesis using i' by (simp add: live3_def)
qed

lemma live3_run:
  "\<forall>h \<in> set (sListeners sig). \<not> settles h \<Longrightarrow> live3 sig s \<Longrightarrow> live3 sig (run step3 es s)"
  by (induction es arbitrary: s) (simp_all add: live3_step3)

lemma live3_new3: "\<not> sAborted sig \<Longrightarrow> live3 sig (new3 sig)"
  by (simp add: live3_def inv3_new3 new3_fields)

subsection \<open>Runs that are asked to settle\<close>






lemma signalAborted_step3: "signalAborted s \<Longrightarrow> signalAborted (step3 e s)"
  by (cases e) (simp_all add: signal_abort_def)



section \<open>The claims\<close>

subsection \<open>Abort before the producer settles\<close>

text \<open>
  Claim C1: when \<open>abort\<close> is called before the executor's \<open>resolve\<close> or \<open>reject\<close>, the
  operation is rejected with an \<open>AbortError\<close> that carries the reason given to \<open>abort\<close>.
  The hook draft does not do so. With the hook of \<open>Ble.sendRequest\<close> registered,
  \<open>abort('User initiated abort.')\<close> rejects with the message the hook has chosen, and the
  reason is stored in \<open>#abortReason\<close> and never read; with no hook registered the
  promise stays pending.
\<close>

theorem hook_draft_abort_drops_reason:
  "promise (run step1 [OnCancel ble_onCancel, Abort1 (Some ''User initiated abort.'')]
      (new1 :: (response, unit) hooked)) = Rejected (AbortError ''Promise was aborted.'')
   \<and> abortReason (run step1 [OnCancel ble_onCancel, Abort1 (Some ''User initiated abort.'')]
      (new1 :: (response, unit) hooked)) = Some ''User initiated abort.''
   \<and> promise (run step1 [Abort1 (Some ''User initiated abort.'')]
      (new1 :: (response, unit) hooked)) = Pending"
  by (simp add: new1_def abort1_def call_def ble_onCancel_def reason_or_default_def)

subsection \<open>Settlement happens once\<close>




subsection \<open>Abort after the producer has settled\<close>

text \<open>
  Claim C3 as stated fails: an \<open>abort\<close> that comes after the producer has settled does run
  the cleanup hook. In the hook draft the hook registered through \<open>onCancel\<close> is still set
  and \<open>abort\<close> calls it; in the controller draft the signal is not yet aborted, so \<open>abort\<close>
  fires the \<open>abort\<close> event and the listeners run. In the hook draft an exception thrown by
  the hook leaves \<open>abort\<close>.
\<close>

theorem abort_after_settlement_runs_hook:
  "promise (run step1 [OnCancel ble_onCancel, Executor1 (Resolve (bleData BLOOD_PRESSURE))]
      (new1 :: (response, unit) hooked)) = Fulfilled (bleData BLOOD_PRESSURE)
   \<and> invoked (run step1 [OnCancel ble_onCancel, Executor1 (Resolve (bleData BLOOD_PRESSURE))]
      (new1 :: (response, unit) hooked)) = []
   \<and> invoked (run step1 [OnCancel ble_onCancel, Executor1 (Resolve (bleData BLOOD_PRESSURE)),
      Abort1 None] (new1 :: (response, unit) hooked)) = [ble_onCancel]
   \<and> invoked (run step2 [Listen2 ble_listener, Executor2 (Resolve (bleData BLOOD_PRESSURE))]
      (new2 :: (response, unit) controlled)) = []
   \<and> invoked (run step2 [Listen2 ble_listener, Executor2 (Resolve (bleData BLOOD_PRESSURE)),
      Abort2 None] (new2 :: (response, unit) controlled)) = [ble_listener]
   \<and> fst (abort1 None (run step1 [OnCancel [Throw (Other ())],
      Executor1 (Resolve (bleData BLOOD_PRESSURE))] (new1 :: (response, unit) hooked)))
      = Some (Other ())"
  by (simp add: new1_def new2_def abort1_def abort2_def controller_abort_def call_def
      ble_onCancel_def ble_listener_def reason_or_default_def)

text \<open>
  Claim C3, amended: when the producer settles a pending operation, the operation has the
  producer's outcome, and a later \<open>abort\<close> leaves that outcome as it is. The call does run
  the cleanup hook: in the hook draft the hook that is registered, and an exception leaves
  \<open>abort\<close> only if that hook throws; in the controller draft, whose \<open>abort\<close> cannot
  throw, every listener of the signal unless the signal is aborted already.
\<close>

theorem abort_after_settlement:
  assumes "promise s = Pending" and "promise t = Pending"
  shows "promise (step1 (Executor1 out) s) = settle out Pending
    \<and> promise (snd (abort1 r (step1 (Executor1 out) s))) = settle out Pending
    \<and> fst (abort1 r (step1 (Executor1 out) s)) =
        (case onCancel s of None \<Rightarrow> None | Some cancelFn \<Rightarrow> thrown cancelFn)
    \<and> invoked (snd (abort1 r (step1 (Executor1 out) s))) =
        invoked s @ (case onCancel s of None \<Rightarrow> [] | Some cancelFn \<Rightarrow> [cancelFn])
    \<and> promise (step2 (Executor2 out) t) = settle out Pending
    \<and> promise (abort2 r (step2 (Executor2 out) t)) = settle out Pending
    \<and> invoked (abort2 r (step2 (Executor2 out) t)) =
        invoked t @ (if aborted t then [] else callbacks (listeners t))"
proof -
  have s: "promise (step1 (Executor1 out) s) = settle out Pending"
    and t: "promise (step2 (Executor2 out) t) = settle out Pending"
    using assms by simp_all
  have "promise (snd (abort1 r (step1 (Executor1 out) s))) = settle out Pending"
    using s abort1_terminal[of "step1 (Executor1 out) s" r] by (simp add: settle_Pending)
  moreover have "promise (abort2 r (step2 (Executor2 out) t)) = settle out Pending"
    using t abort2_terminal[of "step2 (Executor2 out) t" r] by (simp add: settle_Pending)
  ultimately show ?thesis
    using s t by (simp add: abort1_thrown abort1_invoked abort2_invoked)
qed

text \<open>
  Claim C3, amended, at runs of the class with the callbacks of \<open>Ble.sendRequest\<close>: the
  hook is registered through \<open>onCancel\<close> (hook draft) or the listener body is added
  through the \<open>abortSignal\<close> getter (controller draft), the producer delivers its data,
  then the consumer aborts.
\<close>

theorem abort_after_settlement_witness:
  "promise (step1 (OnCancel ble_onCancel) (new1 :: (response, unit) hooked)) = Pending
   \<and> promise (step2 (Listen2 ble_listener) (new2 :: (response, unit) controlled)) = Pending
   \<and> promise (snd (abort1 (Some ''User initiated abort.'')
        (step1 (Executor1 (operation (Inr (bleData BLOOD_PRESSURE))))
          (step1 (OnCancel ble_onCancel) (new1 :: (response, unit) hooked)))))
      = Fulfilled (bleData BLOOD_PRESSURE)
   \<and> fst (abort1 (Some ''User initiated abort.'')
        (step1 (Executor1 (operation (Inr (bleData BLOOD_PRESSURE))))
          (step1 (OnCancel ble_onCancel) (new1 :: (response, unit) hooked)))) = None
   \<and> invoked (snd (abort1 (Some ''User initiated abort.'')
        (step1 (Executor1 (operation (Inr (bleData BLOOD_PRESSURE))))
          (step1 (OnCancel ble_onCancel) (new1 :: (response, unit) hooked)))))
      = [ble_onCancel]
   \<and> promise (abort2 (Some ''User initiated abort.'')
        (step2 (Executor2 (operation (Inr (bleData BLOOD_PRESSURE))))
          (step2 (Listen2 ble_listener) (new2 :: (response, unit) controlled))))
      = Fulfilled (bleData BLOOD_PRESSURE)
   \<and> invoked (abort2 (Some ''User initiated abort.'')
        (step2 (Executor2 (operation (Inr (bleData BLOOD_PRESSURE))))
          (step2 (Listen2 ble_listener) (new2 :: (response, unit) controlled))))
      = [ble_listener]"
proof -
  have h: "promise (step1 (OnCancel ble_onCancel) (new1 :: (response, unit) hooked)) = Pending"
    by (simp add: new1_def)
  have c: "promise (step2 (Listen2 ble_listener) (new2 :: (response, unit) controlled)) = Pending"
    by (simp add: new2_def)
  show ?thesis
    using h c abort_after_settlement[OF h c,
        of "operation (Inr (bleData BLOOD_PRESSURE))" "Some ''User initiated abort.''"]
    by (simp add: operation_def new1_def new2_def ble_onCancel_def ble_listener_def)
qed

subsection \<open>Abort twice\<close>

text \<open>
  Claim C4: two calls of \<open>abort\<close> are as one, the stored reason is the reason of the first
  call, and the hook runs once. The controller draft and \<open>part_000\<close> guard the assignment
  with \<open>signal.aborted\<close> (lemma \<open>abort2_twice\<close>). The hook draft assigns \<open>#abortReason\<close>
  in every call, so the stored reason is the reason of the last call; and a hook that throws
  is not cleared, so the second call runs it again.
\<close>

theorem hook_draft_second_abort_overwrites_reason:
  "abortReason (run step1 [Abort1 (Some ''first'')] (new1 :: (response, unit) hooked))
      = Some ''first''
   \<and> abortReason (run step1 [Abort1 (Some ''first''), Abort1 (Some ''second'')]
      (new1 :: (response, unit) hooked)) = Some ''second''
   \<and> invoked (run step1 [OnCancel [Throw (Other ())], Abort1 None, Abort1 None]
      (new1 :: (response, unit) hooked)) = [[Throw (Other ())], [Throw (Other ())]]"
  by (simp add: new1_def abort1_def call_def reason_or_default_def)

subsection \<open>The given signal and the controller of the class\<close>

text \<open>
  Claim C5, on the linked draft, where the given signal is the parent and the signal of the
  controller that the class owns is the child: the child starts aborted exactly when the
  parent is aborted at construction; at every point of every run the child is aborted exactly
  when the parent is, and it is aborted after every abort of the parent; and
  \<open>AbortController.abort()\<close> on the child leaves the parent as it is.
\<close>

theorem linked_signal_propagation:
  "aborted (new3 sig) = sAborted sig
   \<and> aborted (run step3 es (new3 sig)) = signalAborted (run step3 es (new3 sig))
   \<and> aborted (step3 (SignalAbort r) (run step3 es (new3 sig)))
   \<and> signalAborted (controller_abort s) = signalAborted s"
proof -
  have i: "inv3 sig (run step3 es (new3 sig))"
    using inv3_new3 by (rule inv3_run)
  then have "aborted (run step3 es (new3 sig)) = signalAborted (run step3 es (new3 sig))"
    by (simp add: inv3_def)
  moreover have "aborted (step3 (SignalAbort r) (run step3 es (new3 sig)))"
    using signal_abort_aborted[OF i] by simp
  ultimately show ?thesis
    by (simp add: new3_fields controller_abort_signal)
qed

subsection \<open>Late results after an abort\<close>

text \<open>
  Claim C6: once an operation is settled by an abort, nothing that comes later changes it. In
  the controller draft and in \<open>part_000\<close>, an \<open>abort(r)\<close> on a pending operation rejects
  it with \<open>AbortError\<close> of \<open>r\<close> (the default message when no reason is given), whatever
  follows; in the hook draft a promise rejected with an \<open>AbortError\<close> stays so.
\<close>

theorem late_settlement_ignored:
  "(promise (run step2 es new2) = Pending \<longrightarrow>
      promise (run step2 (es @ Abort2 r # late) new2) =
        Rejected (AbortError (reason_or_default r)))
   \<and> (promise s = Rejected (AbortError m) \<longrightarrow>
      promise (run step1 late' s) = Rejected (AbortError m))"
proof -
  have "promise (run step2 (es @ Abort2 r # late) new2) =
      Rejected (AbortError (reason_or_default r))"
    if p: "promise (run step2 es new2) = Pending"
  proof -
    have i: "inv2 (run step2 es new2)"
      using inv2_new2 by (rule inv2_run)
    then obtain ls where "listeners (run step2 es new2) = RejectOnAbort # ls"
      and "\<not> aborted (run step2 es new2)"
      using p by (auto simp: inv2_def)
    then have "promise (abort2 r (run step2 es new2)) =
        Rejected (AbortError (reason_or_default r))"
      using p abort2_rejects by blast
    then show ?thesis
      using run_terminal[of step2 "abort2 r (run step2 es new2)" late, OF step2_terminal]
      by (simp add: run_append)
  qed
  moreover have "promise (run step1 late' s) = Rejected (AbortError m)"
    if "promise s = Rejected (AbortError m)"
    using that run_terminal[of step1 s late', OF step1_terminal] by simp
  ultimately show ?thesis by blast
qed

text \<open>
  Claim C6 at the demonstration of \<open>part_000\<close>, whose timer is never cleared: the consumer
  aborts after one second and the timer calls \<open>resolve\<close> after three.
\<close>

theorem late_settlement_ignored_witness:
  "promise (run step2 [] (new2 :: (response, unit) controlled)) = Pending
   \<and> promise (run step2 [Abort2 (Some ''User initiated abort.''),
        Executor2 (operation (Inr (bleData BLOOD_PRESSURE)))]
        (new2 :: (response, unit) controlled)) = Rejected (AbortError ''User initiated abort.'')
   \<and> promise (run step1 [OnCancel ble_onCancel, Abort1 (Some ''User initiated abort.'')]
        (new1 :: (response, unit) hooked)) = Rejected (AbortError ''Promise was aborted.'')
   \<and> promise (run step1 [Executor1 (operation (Inr (bleData BLOOD_PRESSURE)))]
        (run step1 [OnCancel ble_onCancel, Abort1 (Some ''User initiated abort.'')]
          (new1 :: (response, unit) hooked))) = Rejected (AbortError ''Promise was aborted.'')"
proof -
  have c: "promise (run step2 [] (new2 :: (response, unit) controlled)) = Pending"
    by (simp add: new2_def)
  have h: "promise (run step1 [OnCancel ble_onCancel, Abort1 (Some ''User initiated abort.'')]
        (new1 :: (response, unit) hooked)) = Rejected (AbortError ''Promise was aborted.'')"
    by (simp add: new1_def abort1_def call_def ble_onCancel_def)
  show ?thesis
    using c h
      late_settlement_ignored[where es = "[] :: (response, unit) event2 list" and r = "Some ''User initiated abort.''"
        and late = "[Executor2 (operation (Inr (bleData BLOOD_PRESSURE)))]"
        and s = "run step1 [OnCancel ble_onCancel, Abort1 (Some ''User initiated abort.'')]
          (new1 :: (response, unit) hooked)"
        and m = "''Promise was aborted.''"
        and late' = "[Executor1 (operation (Inr (bleData BLOOD_PRESSURE)))]"]
    by (simp add: reason_or_default_def)
qed

subsection \<open>Failure of the producer\<close>

text \<open>
  Claim C7: when the awaited computation of \<open>Ble.sendRequest\<close> fails while the operation
  is pending, the operation is rejected with the object whose \<open>errorType\<close> is
  \<open>OPERATION_ERROR\<close> and whose \<open>description\<close> is the cause, and that object is not an
  \<open>AbortError\<close>.
\<close>

theorem producer_failure_wrapped:
  assumes "promise s = Pending" and "promise t = Pending"
  shows "promise (step1 (Executor1 (operation (Inl cause))) s) =
      Rejected (ErrorObject ''OPERATION_ERROR'' cause)
    \<and> promise (step2 (Executor2 (operation (Inl cause))) t) =
      Rejected (ErrorObject ''OPERATION_ERROR'' cause)
    \<and> ErrorObject ''OPERATION_ERROR'' cause \<noteq> AbortError m"
  using assms by (simp add: operation_def)

text \<open>Claim C7 on fresh operations of the hook draft and of \<open>part_000\<close>.\<close>

theorem producer_failure_wrapped_witness:
  "promise (step1 (OnCancel ble_onCancel) (new1 :: (response, string) hooked)) = Pending
   \<and> promise (new2 :: (response, string) controlled) = Pending
   \<and> promise (step1 (Executor1 (operation (Inl ''connection lost'')))
        (step1 (OnCancel ble_onCancel) (new1 :: (response, string) hooked))) =
      Rejected (ErrorObject ''OPERATION_ERROR'' ''connection lost'')
   \<and> promise (step2 (Executor2 (operation (Inl ''connection lost'')))
        (new2 :: (response, string) controlled)) =
      Rejected (ErrorObject ''OPERATION_ERROR'' ''connection lost'')"
proof -
  have h: "promise (step1 (OnCancel ble_onCancel) (new1 :: (response, string) hooked)) = Pending"
    by (simp add: new1_def)
  have c: "promise (new2 :: (response, string) controlled) = Pending"
    by (simp add: new2_def)
  show ?thesis
    using h c producer_failure_wrapped[OF h c, of "''connection lost''"]
    by simp
qed

subsection \<open>The hook draft without a hook\<close>

text \<open>
  Claim C8: in the hook draft \<open>abort\<close> changes the promise only through the hook. The
  promise after \<open>abort\<close> is the promise after the body of the registered hook, and the
  promise as it was when no hook is registered; an operation on which the executor registers
  no hook and calls neither \<open>resolve\<close> nor \<open>reject\<close> is pending after any number of aborts.
\<close>

theorem hook_draft_rejects_only_through_hook:
  "promise (snd (abort1 r s)) =
      (case onCancel s of None \<Rightarrow> promise s | Some cancelFn \<Rightarrow> promise (snd (exec cancelFn s)))
   \<and> ((\<forall>e \<in> set es. is_abort1 e) \<longrightarrow> promise (run step1 es new1) = Pending)"
  using run1_only_aborts[of es new1]
  by (simp add: abort1_promise new1_def)

text \<open>Claim C8 at two aborts of a fresh operation.\<close>

theorem hook_draft_rejects_only_through_hook_witness:
  "is_abort1 (Abort1 (Some ''User initiated abort.'') :: (response, unit) event1)
   \<and> is_abort1 (Abort1 None :: (response, unit) event1)
   \<and> promise (run step1 [Abort1 (Some ''User initiated abort.''), Abort1 None]
        (new1 :: (response, unit) hooked)) = Pending
   \<and> promise (snd (abort1 None (new1 :: (response, unit) hooked))) = Pending"
proof -
  have h: "\<forall>e \<in> set [Abort1 (Some ''User initiated abort.''),
      Abort1 None :: (response, unit) event1]. is_abort1 e"
    by simp
  show ?thesis
    using h
      hook_draft_rejects_only_through_hook[where
        es = "[Abort1 (Some ''User initiated abort.''), Abort1 None :: (response, unit) event1]"
        and r = None and s = "new1 :: (response, unit) hooked"]
    by (simp add: new1_def)
qed

subsection \<open>A signal that is aborted at construction\<close>

text \<open>
  Claim C9: an operation of the linked draft built on a signal that is aborted already has
  its own controller aborted, and nothing but the executor settles it: the promise is what
  the executor's own calls of \<open>resolve\<close> and \<open>reject\<close> make it, no listener ever runs, and
  the promise is not rejected unless the executor rejects it.
\<close>

theorem aborted_signal_never_rejects:
  assumes "sAborted sig"
  shows "aborted (run step3 es (new3 sig))
    \<and> promise (run step3 es (new3 sig)) = fold settle (executor_calls es) Pending
    \<and> invoked (run step3 es (new3 sig)) = []
    \<and> ((\<forall>out \<in> set (executor_calls es). \<not> is_reject out) \<longrightarrow>
         promise (run step3 es (new3 sig)) \<noteq> Rejected e)"
  using assms run3_aborted_signal[of "new3 sig" es] fold_settle_no_reject[of "executor_calls es" e]
  by (simp add: new3_fields)

text \<open>
  Claim C9 at the demonstration with a controller aborted beforehand: the abort is repeated
  and the operation stays pending; three seconds later it is fulfilled.
\<close>

theorem aborted_signal_never_rejects_witness:
  "sAborted (\<lparr>sAborted = True, sReason = None, sListeners = []\<rparr> :: (response, unit) signal)
   \<and> executor_calls [Listen3 ble_listener, SignalAbort None,
        Executor3 (operation (Inr (bleData BLOOD_PRESSURE))) :: (response, unit) event3]
      = [Resolve (bleData BLOOD_PRESSURE)]
   \<and> \<not> is_reject (Resolve (bleData BLOOD_PRESSURE) :: (response, unit) outcome)
   \<and> promise (run step3 [Listen3 ble_listener, SignalAbort None,
        Executor3 (operation (Inr (bleData BLOOD_PRESSURE)))]
        (new3 \<lparr>sAborted = True, sReason = None, sListeners = []\<rparr> :: (response, unit) linked))
      \<noteq> Rejected (AbortError ''Promise was aborted.'')
   \<and> aborted (run step3 [Listen3 ble_listener, SignalAbort None]
        (new3 \<lparr>sAborted = True, sReason = None, sListeners = []\<rparr> :: (response, unit) linked))
   \<and> promise (run step3 [Listen3 ble_listener, SignalAbort None]
        (new3 \<lparr>sAborted = True, sReason = None, sListeners = []\<rparr> :: (response, unit) linked))
      = Pending
   \<and> promise (run step3 [Listen3 ble_listener, SignalAbort None,
        Executor3 (operation (Inr (bleData BLOOD_PRESSURE)))]
        (new3 \<lparr>sAborted = True, sReason = None, sListeners = []\<rparr> :: (response, unit) linked))
      = Fulfilled (bleData BLOOD_PRESSURE)"
proof -
  have a: "sAborted (\<lparr>sAborted = True, sReason = None, sListeners = []\<rparr> :: (response, unit) signal)"
    by simp
  have n: "\<forall>out \<in> set (executor_calls [Listen3 ble_listener, SignalAbort None,
        Executor3 (operation (Inr (bleData BLOOD_PRESSURE))) :: (response, unit) event3]).
        \<not> is_reject out"
    by (simp add: operation_def)
  show ?thesis
    using a n
      aborted_signal_never_rejects[OF a,
        of "[Listen3 ble_listener, SignalAbort None] :: (response, unit) event3 list"]
      aborted_signal_never_rejects[OF a,
        of "[Listen3 ble_listener, SignalAbort None,
          Executor3 (operation (Inr (bleData BLOOD_PRESSURE)))]"
          "AbortError ''Promise was aborted.''"]
    by (simp add: operation_def)
qed

subsection \<open>A signal that aborts after construction\<close>

text \<open>
  Claim C10: in the linked draft, when the given signal was live at construction and aborts
  while the operation is pending, the operation is rejected with an \<open>AbortError\<close> whose
  message is \<open>Promise was aborted.\<close>, whatever reason the abort of the signal carries. The
  listeners that the signal had before the construction run first; they belong to others and
  are taken not to call \<open>resolve\<close> or \<open>reject\<close> of this operation.
\<close>

theorem signal_abort_fixed_message:
  assumes "\<not> sAborted sig"
    and "\<forall>h \<in> set (sListeners sig). \<not> settles h"
    and "promise (run step3 es (new3 sig)) = Pending"
  shows "promise (step3 (SignalAbort r) (run step3 es (new3 sig))) =
      Rejected (AbortError ''Promise was aborted.'')"
proof -
  have "live3 sig (run step3 es (new3 sig))"
    using assms(2) live3_new3[OF assms(1)] by (rule live3_run)
  then have "inv3 sig (run step3 es (new3 sig))" "\<not> signalAborted (run step3 es (new3 sig))"
    using assms(3) by (auto simp: live3_def)
  then show ?thesis
    using signal_abort_rejects[OF _ _ assms(3) assms(2), of r] by simp
qed

text \<open>
  Claim C10 at the demonstration: \<open>Ble.sendRequest\<close> adds its listener after the
  construction, and the controller aborts with a reason of its own.
\<close>

theorem signal_abort_fixed_message_witness:
  "\<not> sAborted (\<lparr>sAborted = False, sReason = None, sListeners = [ble_listener]\<rparr>
      :: (response, string) signal)
   \<and> \<not> settles (ble_listener :: (response, string) callback)
   \<and> promise (run step3 [Listen3 ble_listener]
        (new3 \<lparr>sAborted = False, sReason = None, sListeners = [ble_listener]\<rparr>
          :: (response, string) linked)) = Pending
   \<and> promise (step3 (SignalAbort (Some (Other ''User initiated abort.'')))
        (run step3 [Listen3 ble_listener]
          (new3 \<lparr>sAborted = False, sReason = None, sListeners = [ble_listener]\<rparr>
            :: (response, string) linked))) = Rejected (AbortError ''Promise was aborted.'')"
proof -
  have a: "\<not> sAborted (\<lparr>sAborted = False, sReason = None, sListeners = [ble_listener]\<rparr>
      :: (response, string) signal)"
    by simp
  have n: "\<forall>h \<in> set (sListeners (\<lparr>sAborted = False, sReason = None,
      sListeners = [ble_listener]\<rparr> :: (response, string) signal)). \<not> settles h"
    by (simp add: ble_listener_def)
  have p: "promise (run step3 [Listen3 ble_listener]
        (new3 \<lparr>sAborted = False, sReason = None, sListeners = [ble_listener]\<rparr>
          :: (response, string) linked)) = Pending"
    by (simp add: new3_def)
  show ?thesis
    using a n p
      signal_abort_fixed_message[OF a n p, of "Some (Other ''User initiated abort.'')"]
    by simp
qed

end
